theory Spec2Isabelle
  imports Main
begin

section \<open>The match client of \<^verbatim>\<open>src/App.tsx\<close>\<close>

text \<open>
  The component \<^verbatim>\<open>App\<close> keeps thirteen state cells, reacts to user input, issues one
  network request and replays the returned move list on a rules-engine instance through
  a chain of one-second timers. The model below is a shallow embedding:
  \<^item> the state cells are a record, every handler is a function from state to state;
  \<^item> the rules engine (the library \<^verbatim>\<open>chess.js\<close>) is not part of the repository; it is a
    parameter, a record of the three capabilities the component uses;
  \<^item> the asynchronous parts (the awaited request, the \<^verbatim>\<open>setTimeout\<close> chain and the
    \<^verbatim>\<open>setInterval\<close> of the trivia) are defunctionalised: the closure that is waiting to
    run is a value of type \<open>continuation\<close>, and an event fires it;
  \<^item> delays are not modelled, only the order of events;
  \<^item> of the request only the outcome is modelled: it fails, or it delivers a list of
    strings, the declared type of \<^verbatim>\<open>movesHistory\<close>. The request body, and a response whose
    \<^verbatim>\<open>move_history\<close> is anything else, are outside the model.
\<close>

subsection \<open>JavaScript numbers as far as the max-turns field needs them\<close>

text \<open>
  \<^verbatim>\<open>parseInt\<close> yields an integral number or \<^verbatim>\<open>NaN\<close>. The rounding of very long digit
  strings to a double is left out: a \<open>Num n\<close> carries the exact integer.
\<close>

datatype number = NaN | Num int

text \<open>\<^verbatim>\<open>Math.max(a, b)\<close>: \<^verbatim>\<open>NaN\<close> as soon as one argument is \<^verbatim>\<open>NaN\<close>.\<close>

fun Math_max :: "number \<Rightarrow> number \<Rightarrow> number" where
  "Math_max (Num a) (Num b) = Num (max a b)"
| "Math_max _ _ = NaN"

text \<open>The comparison \<^verbatim>\<open>a >= b\<close> and \<^verbatim>\<open>a < b\<close> of numbers: false as soon as one side is \<^verbatim>\<open>NaN\<close>.\<close>

fun number_ge :: "number \<Rightarrow> number \<Rightarrow> bool" where
  "number_ge (Num a) (Num b) = (b \<le> a)"
| "number_ge _ _ = False"

fun number_lt :: "number \<Rightarrow> number \<Rightarrow> bool" where
  "number_lt (Num a) (Num b) = (a < b)"
| "number_lt _ _ = False"

text \<open>
  \<^verbatim>\<open>parseInt(string)\<close> with no radix, after ECMAScript: skip leading white space, read an
  optional sign, an optional \<^verbatim>\<open>0x\<close>/\<^verbatim>\<open>0X\<close> prefix (then the radix is 16, otherwise 10), take
  the longest run of digits of that radix; no digit at all is \<^verbatim>\<open>NaN\<close>. White space is the
  ASCII white space here.
\<close>

definition StrWhiteSpaceChar :: "char \<Rightarrow> bool" where
  "StrWhiteSpaceChar c = (c \<in> set [CHR '' '', CHR 0x09, CHR 0x0A, CHR 0x0B, CHR 0x0C, CHR 0x0D])"

definition digit_value :: "char \<Rightarrow> nat option" where
  "digit_value c =
     (let k = of_char c :: nat in
      if 48 \<le> k \<and> k \<le> 57 then Some (k - 48)
      else if 97 \<le> k \<and> k \<le> 122 then Some (k - 87)
      else if 65 \<le> k \<and> k \<le> 90 then Some (k - 55)
      else None)"

definition radix_digit :: "nat \<Rightarrow> char \<Rightarrow> bool" where
  "radix_digit R c = (case digit_value c of None \<Rightarrow> False | Some d \<Rightarrow> d < R)"

fun digits_value :: "nat \<Rightarrow> nat \<Rightarrow> string \<Rightarrow> nat" where
  "digits_value R acc [] = acc"
| "digits_value R acc (c # cs) =
     digits_value R (acc * R + (case digit_value c of None \<Rightarrow> 0 | Some d \<Rightarrow> d)) cs"

definition parseInt :: "string \<Rightarrow> number" where
  "parseInt inputString =
     (let S = dropWhile StrWhiteSpaceChar inputString;
          sign = (if take 1 S = ''-'' then - 1 else 1 :: int);
          S1 = (if take 1 S = ''-'' \<or> take 1 S = ''+'' then drop 1 S else S);
          hex = (take 2 S1 = ''0x'' \<or> take 2 S1 = ''0X'');
          R = (if hex then 16 else 10 :: nat);
          S2 = (if hex then drop 2 S1 else S1);
          Z = takeWhile (radix_digit R) S2
      in if Z = [] then NaN else Num (sign * int (digits_value R 0 Z)))"

subsection \<open>The rules engine, a parameter\<close>

text \<open>
  The argument of \<^verbatim>\<open>game.move({ from, to, promotion })\<close>. (\<open>from\<close> is a keyword of the
  proof language, hence the prefix.)
\<close>

record move_arg =
  sq_from :: string
  sq_to :: string
  promotion :: string

text \<open>
  What the component uses of a \<^verbatim>\<open>Chess\<close> object whose states have type \<open>'g\<close>:
  \<^item> \<open>new_Chess\<close>: the state of a fresh \<^verbatim>\<open>new Chess()\<close>, the starting position, which is
    also the state \<^verbatim>\<open>reset()\<close> puts the instance back into;
  \<^item> \<open>fen\<close>: the position encoding of a state;
  \<^item> \<open>move\<close>: the state after a move, or \<open>None\<close> when the call throws (an engine that
    answers an illegal move with \<^verbatim>\<open>null\<close> and stays as it is returns \<open>Some\<close> of the
    unchanged state).
\<close>

record 'g Chess =
  new_Chess :: 'g
  fen :: "'g \<Rightarrow> string"
  move :: "'g \<Rightarrow> move_arg \<Rightarrow> 'g option"

definition reset :: "'g Chess \<Rightarrow> 'g \<Rightarrow> 'g" where
  "reset eng g = new_Chess eng"

subsection \<open>The state of the component\<close>

definition chessTrivia :: "string list" where
  "chessTrivia =
    [''The longest official chess game in history lasted 269 moves (Nikoli'' @ [CHR 0xC4, CHR 0x87]
       @ '' vs Arsovi'' @ [CHR 0xC4, CHR 0x87] @ '', 1989)'',
     ''The number of possible unique chess games is greater than the number of atoms in the universe'',
     ''The first chess computer program was developed by Alan Turing in 1951'',
     ''The shortest possible chess game ending in checkmate takes just two moves'',
     ''The longest chess game theoretically possible is 5,949 moves'',
     ''The word '' @ [CHR 0x27] @ ''Checkmate'' @ [CHR 0x27] @ '' comes from the Persian phrase ''
       @ [CHR 0x27] @ ''Shah Mat'' @ [CHR 0x27] @ '' meaning '' @ [CHR 0x27] @ ''the king is dead''
       @ [CHR 0x27],
     ''Chess was invented in India around the 6th century AD'',
     ''The first chess tournament was held in London in 1851'',
     ''Magnus Carlsen became a chess grandmaster at the age of 13'',
     ''The queen piece was originally the vizier and was the weakest piece'']"

record 'g App =
  game :: 'g
  position :: string
  whiteModel :: string
  blackModel :: string
  whiteKey :: string
  blackKey :: string
  maxTurns :: number
  isLoading :: bool
  thinking :: string
  gameFinished :: bool
  currentTrivia :: nat
  gameStarted :: bool
  movesHistory :: "string list"

text \<open>The initial values of the \<^verbatim>\<open>useState\<close> calls.\<close>

definition App_init :: "'g Chess \<Rightarrow> 'g App" where
  "App_init eng =
     \<lparr> game = new_Chess eng, position = fen eng (new_Chess eng),
       whiteModel = ''OpenAI'', blackModel = ''OpenAI'', whiteKey = '''', blackKey = '''',
       maxTurns = Num 5, isLoading = False, thinking = '''', gameFinished = False,
       currentTrivia = 0, gameStarted = False, movesHistory = [] \<rparr>"

subsection \<open>Handlers\<close>

text \<open>The callback of the trivia interval: \<^verbatim>\<open>setCurrentTrivia(prev => (prev + 1) % chessTrivia.length)\<close>.\<close>

definition trivia_tick :: "'g App \<Rightarrow> 'g App" where
  "trivia_tick s = s\<lparr>currentTrivia := (currentTrivia s + 1) mod length chessTrivia\<rparr>"

text \<open>The effect keeps the interval alive exactly while \<^verbatim>\<open>isLoading && !gameStarted\<close>.\<close>

definition trivia_running :: "'g App \<Rightarrow> bool" where
  "trivia_running s = (isLoading s \<and> \<not> gameStarted s)"

definition resetGame :: "'g Chess \<Rightarrow> 'g App \<Rightarrow> 'g App" where
  "resetGame eng s =
     (let g = reset eng (game s) in
      s\<lparr>game := g, position := fen eng g, gameFinished := False, thinking := '''',
        gameStarted := False, movesHistory := []\<rparr>)"

text \<open>\<^verbatim>\<open>String.prototype.slice(a, b)\<close> for \<open>0 \<le> a \<le> b\<close>: total, shorter at the end of the string.\<close>

definition slice :: "string \<Rightarrow> nat \<Rightarrow> nat \<Rightarrow> string" where
  "slice s a b = take (b - a) (drop a s)"

definition formatMove :: "string \<Rightarrow> string" where
  "formatMove m = (let from = slice m 0 2; to = slice m 2 4 in from @ ''-'' @ to)"

text \<open>The \<^verbatim>\<open>onChange\<close> handler of the max-turns field.\<close>

definition onChange_maxTurns :: "string \<Rightarrow> 'g App \<Rightarrow> 'g App" where
  "onChange_maxTurns v s = s\<lparr>maxTurns := Math_max (Num 1) (parseInt v)\<rparr>"

subsection \<open>The match driver\<close>

text \<open>
  \<^verbatim>\<open>startGame\<close> runs in three pieces, cut at the \<^verbatim>\<open>await\<close>: the statements before the
  \<^verbatim>\<open>try\<close>, the rest of the \<^verbatim>\<open>try\<close> block once the request has resolved to a move list, and
  the \<^verbatim>\<open>catch\<close> block when the request (or the decoding of its body) has failed.
\<close>

definition startGame_init :: "'g Chess \<Rightarrow> 'g App \<Rightarrow> 'g App" where
  "startGame_init eng s =
     (let g = reset eng (game s) in
      s\<lparr>isLoading := True, thinking := ''Agents are getting ready...'', gameFinished := False,
        gameStarted := False, movesHistory := [], game := g, position := fen eng g\<rparr>)"

definition startGame_catch :: "'g App \<Rightarrow> 'g App" where
  "startGame_catch s = s\<lparr>thinking := ''Failed to load moves.'', isLoading := False\<rparr>"

text \<open>
  What is waiting to run: nothing, the continuation of \<^verbatim>\<open>startGame\<close> behind the \<^verbatim>\<open>await\<close>,
  or the \<^verbatim>\<open>setTimeout\<close> callback, a closure over \<^verbatim>\<open>moves\<close> and \<^verbatim>\<open>i\<close>.
\<close>

datatype continuation = NoPending | AwaitingFetch | Timeout "string list" nat

record 'g system =
  ui :: "'g App"
  pending :: continuation

definition currentTurn :: "nat \<Rightarrow> string" where
  "currentTurn i = (if i mod 2 = 0 then ''White'' else ''Black'')"

definition playMoves :: "string list \<Rightarrow> nat \<Rightarrow> 'g App \<Rightarrow> 'g system" where
  "playMoves moves i s =
     (if i < length moves
      then \<lparr>ui = s\<lparr>thinking := currentTurn i @ '' is thinking...''\<rparr>, pending = Timeout moves i\<rparr>
      else \<lparr>ui = s\<lparr>thinking := [], isLoading := False, gameFinished := True\<rparr>,
            pending = NoPending\<rparr>)"

text \<open>
  The callback runs outside the \<^verbatim>\<open>try\<close>: what it throws is caught by nobody. It throws
  when the engine refuses the move, before any setter has been called; \<^verbatim>\<open>moves[i]\<close> out of
  range is \<^verbatim>\<open>undefined\<close>, and \<^verbatim>\<open>undefined.slice\<close> throws as well.
\<close>

datatype error = TypeError | InvalidMove

definition timeout_callback :: "'g Chess \<Rightarrow> string list \<Rightarrow> nat \<Rightarrow> 'g App \<Rightarrow> error + 'g system" where
  "timeout_callback eng moves i s =
     (if i < length moves then
        (let m = moves ! i in
         case move eng (game s) \<lparr>sq_from = slice m 0 2, sq_to = slice m 2 4, promotion = ''q''\<rparr> of
           None \<Rightarrow> Inl InvalidMove
         | Some g \<Rightarrow> Inr (playMoves moves (i + 1) (s\<lparr>game := g, position := fen eng g\<rparr>)))
      else Inl TypeError)"

definition startGame_then :: "string list \<Rightarrow> 'g App \<Rightarrow> 'g system" where
  "startGame_then moves s = playMoves moves 0 (s\<lparr>movesHistory := moves, gameStarted := True\<rparr>)"

text \<open>The outcome of the request: it fails, or it delivers \<^verbatim>\<open>data.move_history\<close>.\<close>

datatype response = Rejects | Resolves "string list"

definition startGame :: "'g Chess \<Rightarrow> response \<Rightarrow> 'g App \<Rightarrow> 'g system" where
  "startGame eng r s =
     (let s1 = startGame_init eng s in
      case r of
        Rejects \<Rightarrow> \<lparr>ui = startGame_catch s1, pending = NoPending\<rparr>
      | Resolves moves \<Rightarrow> startGame_then moves s1)"

subsection \<open>The event loop\<close>

text \<open>One timer of the chain fires. A callback that throws leaves the state as it was.\<close>

definition fire_timeout :: "'g Chess \<Rightarrow> 'g system \<Rightarrow> 'g system" where
  "fire_timeout eng sys =
     (case pending sys of
        Timeout moves i \<Rightarrow>
          (case timeout_callback eng moves i (ui sys) of
             Inl e \<Rightarrow> sys\<lparr>pending := NoPending\<rparr>
           | Inr sys' \<Rightarrow> sys')
      | _ \<Rightarrow> sys)"

text \<open>
  What can happen to the page. \<open>step\<close> is \<open>None\<close> for an event that cannot happen in a
  state: the start button is disabled while loading, the reset button exists only when
  the match is finished, the trivia interval exists only while loading before the replay.
\<close>

datatype event =
    Select_whiteModel string
  | Select_blackModel string
  | Input_whiteKey string
  | Input_blackKey string
  | Input_maxTurns string
  | Click_start
  | Click_reset
  | Fetch_resolves "string list"
  | Fetch_rejects
  | Timeout_fires
  | Interval_fires

fun step :: "'g Chess \<Rightarrow> 'g system \<Rightarrow> event \<Rightarrow> 'g system option" where
  "step eng sys (Select_whiteModel v) = Some (sys\<lparr>ui := (ui sys)\<lparr>whiteModel := v\<rparr>\<rparr>)"
| "step eng sys (Select_blackModel v) = Some (sys\<lparr>ui := (ui sys)\<lparr>blackModel := v\<rparr>\<rparr>)"
| "step eng sys (Input_whiteKey v) = Some (sys\<lparr>ui := (ui sys)\<lparr>whiteKey := v\<rparr>\<rparr>)"
| "step eng sys (Input_blackKey v) = Some (sys\<lparr>ui := (ui sys)\<lparr>blackKey := v\<rparr>\<rparr>)"
| "step eng sys (Input_maxTurns v) = Some (sys\<lparr>ui := onChange_maxTurns v (ui sys)\<rparr>)"
| "step eng sys Click_start =
     (if isLoading (ui sys) then None
      else Some \<lparr>ui = startGame_init eng (ui sys), pending = AwaitingFetch\<rparr>)"
| "step eng sys Click_reset =
     (if gameFinished (ui sys) then Some (sys\<lparr>ui := resetGame eng (ui sys)\<rparr>) else None)"
| "step eng sys (Fetch_resolves moves) =
     (if pending sys = AwaitingFetch then Some (startGame_then moves (ui sys)) else None)"
| "step eng sys Fetch_rejects =
     (if pending sys = AwaitingFetch
      then Some \<lparr>ui = startGame_catch (ui sys), pending = NoPending\<rparr> else None)"
| "step eng sys Timeout_fires =
     (case pending sys of Timeout moves i \<Rightarrow> Some (fire_timeout eng sys) | _ \<Rightarrow> None)"
| "step eng sys Interval_fires =
     (if trivia_running (ui sys) then Some (sys\<lparr>ui := trivia_tick (ui sys)\<rparr>) else None)"

fun run :: "'g Chess \<Rightarrow> 'g system \<Rightarrow> event list \<Rightarrow> 'g system option" where
  "run eng sys [] = Some sys"
| "run eng sys (e # es) = (case step eng sys e of None \<Rightarrow> None | Some sys' \<Rightarrow> run eng sys' es)"

definition system_init :: "'g Chess \<Rightarrow> 'g system" where
  "system_init eng = \<lparr>ui = App_init eng, pending = NoPending\<rparr>"

text \<open>
  The timer chain run to its end: the positions handed to \<^verbatim>\<open>setPosition\<close>, in order, and
  the system when no timer is left.
\<close>

definition timers_left :: "'g system \<Rightarrow> nat" where
  "timers_left sys = (case pending sys of Timeout moves i \<Rightarrow> Suc (length moves - i) | _ \<Rightarrow> 0)"

function run_timeouts :: "'g Chess \<Rightarrow> 'g system \<Rightarrow> string list \<times> 'g system" where
  "run_timeouts eng sys =
     (case pending sys of
        Timeout moves i \<Rightarrow>
          (case timeout_callback eng moves i (ui sys) of
             Inl e \<Rightarrow> ([], sys\<lparr>pending := NoPending\<rparr>)
           | Inr sys' \<Rightarrow>
               (case run_timeouts eng sys' of (ps, fin) \<Rightarrow> (position (ui sys') # ps, fin)))
      | _ \<Rightarrow> ([], sys))"
  by pat_completeness auto
termination
proof (relation "measure (\<lambda>(eng, sys). timers_left sys)")
  show "wf (measure (\<lambda>(eng :: 'g Chess, sys). timers_left sys))"
    by simp
next
  fix eng :: "'g Chess" and sys :: "'g system" and moves i sys'
  assume p: "pending sys = Timeout moves i"
    and c: "timeout_callback eng moves i (ui sys) = Inr sys'"
  from c have "i < length moves"
    by (simp add: timeout_callback_def split: if_splits)
  moreover from c have "timers_left sys' \<le> Suc (length moves - Suc i)"
    by (auto simp: timeout_callback_def playMoves_def timers_left_def Let_def
        split: if_splits option.splits)
  ultimately show "((eng, sys'), (eng, sys)) \<in> measure (\<lambda>(eng, sys). timers_left sys)"
    using p by (simp add: timers_left_def)
qed

subsection \<open>What is rendered\<close>

text \<open>A non-negative integer in a JSX text position: its decimal digits.\<close>

fun String_of_nat :: "nat \<Rightarrow> string" where
  "String_of_nat n =
     (if n < 10 then [char_of (48 + n)]
      else String_of_nat (n div 10) @ [char_of (48 + n mod 10)])"

declare String_of_nat.simps [simp del]

text \<open>One cell of the move log: \<^verbatim>\<open>{index + 1}. {index % 2 === 0 ? 'White' : 'Black'}: {formatMove(move)}\<close>.\<close>

definition log_entry :: "nat \<Rightarrow> string \<Rightarrow> string" where
  "log_entry index m =
     String_of_nat (index + 1) @ ''. '' @ (if index mod 2 = 0 then ''White'' else ''Black'')
       @ '': '' @ formatMove m"

text \<open>The move log: \<^verbatim>\<open>gameFinished && movesHistory.length > 0 && movesHistory.map(...)\<close>.\<close>

definition moves_log :: "'g App \<Rightarrow> string list" where
  "moves_log s =
     (if gameFinished s \<and> length (movesHistory s) > 0
      then map (\<lambda>(index, m). log_entry index m) (enumerate 0 (movesHistory s))
      else [])"

subsection \<open>The reference for the replay\<close>

text \<open>
  The specification speaks of the engine state after the moves with indices below the
  cursor, each applied from its first two characters to its next two with the queen as
  promotion choice. \<open>engine_after\<close> is that state, \<open>None\<close> when the engine throws on the way.
\<close>

definition queen_move :: "string \<Rightarrow> move_arg" where
  "queen_move m = \<lparr>sq_from = take 2 m, sq_to = take 2 (drop 2 m), promotion = ''q''\<rparr>"

fun engine_after :: "'g Chess \<Rightarrow> 'g \<Rightarrow> string list \<Rightarrow> 'g option" where
  "engine_after eng g [] = Some g"
| "engine_after eng g (m # ms) =
     (case move eng g (queen_move m) of None \<Rightarrow> None | Some g' \<Rightarrow> engine_after eng g' ms)"

text \<open>An engine that turns every promotion choice into the queen before it looks at the move.\<close>

definition queen_only :: "'g Chess \<Rightarrow> 'g Chess" where
  "queen_only eng = eng\<lparr>move := \<lambda>g a. move eng g (a\<lparr>promotion := ''q''\<rparr>)\<rparr>"

subsection \<open>An engine to run the model on\<close>

text \<open>
  The theorems hold for every engine. To run them on concrete inputs, \<open>recorder\<close> stands
  in for the library: its state is the list of the moves it has accepted, its position
  encoding spells that list out behind the word \<^verbatim>\<open>start\<close>, and it throws on a move whose squares are not a file
  \<^verbatim>\<open>a\<close>..\<^verbatim>\<open>h\<close> followed by a rank \<^verbatim>\<open>1\<close>..\<^verbatim>\<open>8\<close>. It knows no other rule of chess.
\<close>

definition is_square :: "string \<Rightarrow> bool" where
  "is_square sq =
     (case sq of
        [f, r] \<Rightarrow> f \<in> set ''abcdefgh'' \<and> r \<in> set ''12345678''
      | _ \<Rightarrow> False)"

definition recorder :: "move_arg list Chess" where
  "recorder =
     \<lparr> new_Chess = [],
       fen = (\<lambda>g. ''start'' @ concat (map (\<lambda>a. '' '' @ sq_from a @ sq_to a @ promotion a) g)),
       move = (\<lambda>g a. if is_square (sq_from a) \<and> is_square (sq_to a) then Some (g @ [a]) else None) \<rparr>"

text \<open>
  The successive position encodings of an engine that is fed a move list, up to the first
  move it throws on: what the specification expects \<^verbatim>\<open>setPosition\<close> to receive.
\<close>

fun positions_after :: "'g Chess \<Rightarrow> 'g \<Rightarrow> string list \<Rightarrow> string list" where
  "positions_after eng g [] = []"
| "positions_after eng g (m # ms) =
     (case move eng g (queen_move m) of
        None \<Rightarrow> []
      | Some g' \<Rightarrow> fen eng g' # positions_after eng g' ms)"

text \<open>The page after the request has delivered \<open>moves\<close> and \<open>k\<close> timers of the chain have fired.\<close>

abbreviation replay :: "'g Chess \<Rightarrow> string list \<Rightarrow> 'g App \<Rightarrow> nat \<Rightarrow> 'g system" where
  "replay eng moves s k \<equiv> (fire_timeout eng ^^ k) (startGame eng (Resolves moves) s)"

text \<open>
  The invariant of the replay of \<open>moves\<close>, for the system after \<open>k\<close> timers and a cursor
  \<open>c\<close>: the cursor is within the list, the engine instance is the starting state with the
  moves below the cursor applied, the displayed position is its encoding, and the
  system is in one of three situations:
  \<^item> replaying: the pending timer holds the cursor, which is the number of timers fired,
    and the page shows the spinner without the trivia;
  \<^item> finished: nothing is pending and the cursor is the length of the list;
  \<^item> halted: nothing is pending, the engine has thrown on the move at the cursor.
\<close>

definition replay_inv :: "'g Chess \<Rightarrow> string list \<Rightarrow> nat \<Rightarrow> nat \<Rightarrow> 'g system \<Rightarrow> bool" where
  "replay_inv eng moves k c sys =
     (c \<le> length moves \<and> c \<le> k \<and>
      engine_after eng (new_Chess eng) (take c moves) = Some (game (ui sys)) \<and>
      position (ui sys) = fen eng (game (ui sys)) \<and>
      (pending sys = Timeout moves c \<and> c = k \<and> c < length moves \<and> \<not> gameFinished (ui sys) \<and>
          isLoading (ui sys) \<and> gameStarted (ui sys)
       \<or> pending sys = NoPending \<and> c = length moves \<and> gameFinished (ui sys)
       \<or> pending sys = NoPending \<and> c < length moves \<and> \<not> gameFinished (ui sys) \<and>
          move eng (game (ui sys)) (queen_move (moves ! c)) = None))"

text \<open>The events that are the user editing the configuration panel.\<close>

fun user_input :: "event \<Rightarrow> bool" where
  "user_input (Select_whiteModel v) = True"
| "user_input (Select_blackModel v) = True"
| "user_input (Input_whiteKey v) = True"
| "user_input (Input_blackKey v) = True"
| "user_input (Input_maxTurns v) = True"
| "user_input e = False"

section \<open>Properties\<close>

subsection \<open>The timer chain, step by step\<close>

text \<open>
  The recursion equation of \<open>run_timeouts\<close> is unfolded by hand where it is needed.
\<close>

declare run_timeouts.simps [simp del]

lemma run_timeouts_idle: "pending sys = NoPending \<Longrightarrow> run_timeouts eng sys = ([], sys)"
  by (simp add: run_timeouts.simps)

lemma callback_request:
  "\<lparr>sq_from = slice m 0 2, sq_to = slice m 2 4, promotion = ''q''\<rparr> = queen_move m"
  by (simp add: slice_def queen_move_def)

lemma timeout_callback_accepts:
  "i < length moves \<Longrightarrow> move eng (game s) (queen_move (moves ! i)) = Some g \<Longrightarrow>
     timeout_callback eng moves i s = Inr (playMoves moves (Suc i) (s\<lparr>game := g, position := fen eng g\<rparr>))"
  by (simp add: timeout_callback_def callback_request)

lemma timeout_callback_throws:
  "i < length moves \<Longrightarrow> move eng (game s) (queen_move (moves ! i)) = None \<Longrightarrow>
     timeout_callback eng moves i s = Inl InvalidMove"
  by (simp add: timeout_callback_def callback_request)

lemma playMoves_pending:
  "pending (playMoves moves i s) = (if i < length moves then Timeout moves i else NoPending)"
  by (simp add: playMoves_def)

lemma playMoves_ui_fields:
  "game (ui (playMoves moves i s)) = game s"
  "position (ui (playMoves moves i s)) = position s"
  "movesHistory (ui (playMoves moves i s)) = movesHistory s"
  "gameFinished (ui (playMoves moves i s)) = (if i < length moves then gameFinished s else True)"
  "isLoading (ui (playMoves moves i s)) = (if i < length moves then isLoading s else False)"
  "gameStarted (ui (playMoves moves i s)) = gameStarted s"
  by (simp_all add: playMoves_def)

lemma playMoves_absorb:
  "playMoves moves j (ui (playMoves moves i s)\<lparr>game := g, position := p\<rparr>)
     = playMoves moves j (s\<lparr>game := g, position := p\<rparr>)" if "i < length moves"
  using that by (simp add: playMoves_def)

lemma engine_after_snoc:
  "engine_after eng g (ms @ [m]) =
     (case engine_after eng g ms of None \<Rightarrow> None | Some g' \<Rightarrow> move eng g' (queen_move m))"
  by (induction ms arbitrary: g) (auto split: option.splits)

lemma engine_after_take_Suc:
  "k < length ms \<Longrightarrow> engine_after eng g (take (Suc k) ms) =
     (case engine_after eng g (take k ms) of None \<Rightarrow> None | Some g' \<Rightarrow> move eng g' (queen_move (ms ! k)))"
  by (simp add: take_Suc_conv_app_nth engine_after_snoc)

lemma fire_timeout_playMoves:
  assumes "i < length moves" and "move eng (game s) (queen_move (moves ! i)) = Some g"
  shows "fire_timeout eng (playMoves moves i s) = playMoves moves (Suc i) (s\<lparr>game := g, position := fen eng g\<rparr>)"
proof -
  have "timeout_callback eng moves i (ui (playMoves moves i s))
      = Inr (playMoves moves (Suc i) (ui (playMoves moves i s)\<lparr>game := g, position := fen eng g\<rparr>))"
    using assms by (intro timeout_callback_accepts) (simp_all add: playMoves_ui_fields)
  then show ?thesis
    using assms(1) by (simp add: fire_timeout_def playMoves_pending playMoves_absorb)
qed

lemma fire_timeout_funpow:
  assumes "k \<le> length moves" and "engine_after eng (game s) (take k moves) = Some g"
    and "position s = fen eng (game s)"
  shows "(fire_timeout eng ^^ k) (playMoves moves 0 s) = playMoves moves k (s\<lparr>game := g, position := fen eng g\<rparr>)"
  using assms
proof (induction k arbitrary: g)
  case 0
  then have "s\<lparr>game := g, position := fen eng g\<rparr> = s\<lparr>game := game s, position := position s\<rparr>"
    by simp
  then show ?case by simp
next
  case (Suc k)
  from Suc.prems have k: "k < length moves" by simp
  from Suc.prems(2) k obtain g' where g': "engine_after eng (game s) (take k moves) = Some g'"
    and mv: "move eng g' (queen_move (moves ! k)) = Some g"
    by (auto simp: engine_after_take_Suc split: option.splits)
  have "(fire_timeout eng ^^ k) (playMoves moves 0 s) = playMoves moves k (s\<lparr>game := g', position := fen eng g'\<rparr>)"
    using Suc.IH [OF _ g' Suc.prems(3)] k by simp
  moreover have "fire_timeout eng (playMoves moves k (s\<lparr>game := g', position := fen eng g'\<rparr>))
      = playMoves moves (Suc k) (s\<lparr>game := g', position := fen eng g'\<rparr>\<lparr>game := g, position := fen eng g\<rparr>)"
    using k mv by (intro fire_timeout_playMoves) simp_all
  ultimately show ?case by simp
qed

lemma run_timeouts_playMoves:
  assumes "i \<le> length moves" and "engine_after eng (game s) (drop i moves) = Some g"
    and "position s = fen eng (game s)"
  shows "run_timeouts eng (playMoves moves i s) =
           (positions_after eng (game s) (drop i moves),
            playMoves moves (length moves) (s\<lparr>game := g, position := fen eng g\<rparr>))"
  using assms
proof (induction "length moves - i" arbitrary: i s)
  case 0
  then have i: "i = length moves" by simp
  with "0.prems" have "s\<lparr>game := g, position := fen eng g\<rparr> = s\<lparr>game := game s, position := position s\<rparr>"
    by simp
  then have "playMoves moves (length moves) (s\<lparr>game := g, position := fen eng g\<rparr>) = playMoves moves i s"
    using i by simp
  then show ?case
    using i by (simp add: run_timeouts_idle playMoves_pending)
next
  case (Suc n)
  then have i: "i < length moves" by simp
  then have d: "drop i moves = moves ! i # drop (Suc i) moves"
    by (simp add: Cons_nth_drop_Suc)
  from Suc.prems(2) d obtain g1 where mv: "move eng (game s) (queen_move (moves ! i)) = Some g1"
    and rest: "engine_after eng g1 (drop (Suc i) moves) = Some g"
    by (auto split: option.splits)
  let ?s1 = "s\<lparr>game := g1, position := fen eng g1\<rparr>"
  have cb: "timeout_callback eng moves i (ui (playMoves moves i s)) = Inr (playMoves moves (Suc i) ?s1)"
    using timeout_callback_accepts [of i moves eng "ui (playMoves moves i s)" g1] i mv
    by (simp add: playMoves_ui_fields playMoves_absorb)
  have ih: "run_timeouts eng (playMoves moves (Suc i) ?s1) =
      (positions_after eng (game ?s1) (drop (Suc i) moves),
       playMoves moves (length moves) (?s1\<lparr>game := g, position := fen eng g\<rparr>))"
    using Suc.hyps(2) i rest by (intro Suc.hyps(1)) simp_all
  have "run_timeouts eng (playMoves moves i s) =
      (position (ui (playMoves moves (Suc i) ?s1)) # fst (run_timeouts eng (playMoves moves (Suc i) ?s1)),
       snd (run_timeouts eng (playMoves moves (Suc i) ?s1)))"
    using i cb by (subst run_timeouts.simps) (simp add: playMoves_pending split: prod.splits)
  then show ?case
    using ih d mv by (simp add: playMoves_ui_fields)
qed

lemma length_positions_after:
  "engine_after eng g ms = Some g' \<Longrightarrow> length (positions_after eng g ms) = length ms"
  by (induction ms arbitrary: g) (auto split: option.splits)

lemma startGame_events:
  "\<not> isLoading (ui sys) \<Longrightarrow>
     run eng sys [Click_start, Fetch_rejects] = Some (startGame eng Rejects (ui sys)) \<and>
     run eng sys [Click_start, Fetch_resolves moves] = Some (startGame eng (Resolves moves) (ui sys))"
  by (simp add: startGame_def)

lemma startGame_init_fields:
  "game (startGame_init eng s) = new_Chess eng"
  "position (startGame_init eng s) = fen eng (new_Chess eng)"
  "gameFinished (startGame_init eng s) = False"
  "isLoading (startGame_init eng s) = True"
  "gameStarted (startGame_init eng s) = False"
  by (simp_all add: startGame_init_def reset_def Let_def)

lemma length_chessTrivia: "length chessTrivia = 10"
  by (simp add: chessTrivia_def)

subsection \<open>Reset\<close>

text \<open>
  Claim C4. In a state where the match is finished the reset button exists; clicking it
  runs \<open>resetGame\<close>, after which the engine instance is in its starting state, the
  displayed position is the encoding of that state, the recorded move list is empty, the
  thinking text is empty and the completion flag is false.
\<close>

theorem resetGame_from_finished:
  assumes "gameFinished (ui sys)"
  shows "step eng sys Click_reset = Some (sys\<lparr>ui := resetGame eng (ui sys)\<rparr>) \<and>
         game (resetGame eng (ui sys)) = new_Chess eng \<and>
         position (resetGame eng (ui sys)) = fen eng (new_Chess eng) \<and>
         movesHistory (resetGame eng (ui sys)) = [] \<and>
         thinking (resetGame eng (ui sys)) = [] \<and>
         gameFinished (resetGame eng (ui sys)) = False"
  using assms by (simp add: resetGame_def reset_def Let_def)

theorem resetGame_from_finished_witness:
  "gameFinished (ui (snd (run_timeouts recorder (startGame recorder (Resolves [''e2e4'']) (App_init recorder))))) \<and>
   game (resetGame recorder (ui (snd (run_timeouts recorder
      (startGame recorder (Resolves [''e2e4'']) (App_init recorder)))))) = [] \<and>
   position (resetGame recorder (ui (snd (run_timeouts recorder
      (startGame recorder (Resolves [''e2e4'']) (App_init recorder)))))) = ''start'' \<and>
   movesHistory (resetGame recorder (ui (snd (run_timeouts recorder
      (startGame recorder (Resolves [''e2e4'']) (App_init recorder)))))) = []"
proof -
  have fin: "gameFinished (ui (snd (run_timeouts recorder
      (startGame recorder (Resolves [''e2e4'']) (App_init recorder)))))"
    by code_simp
  from resetGame_from_finished [OF fin, of recorder] fin show ?thesis
    by (simp add: recorder_def)
qed

text \<open>
  Claim C10. \<open>resetGame\<close> leaves the match configuration alone: both provider
  selections, both keys and the max-turn count are what they were.
\<close>

theorem resetGame_keeps_configuration:
  "whiteModel (resetGame eng s) = whiteModel s \<and>
   blackModel (resetGame eng s) = blackModel s \<and>
   whiteKey (resetGame eng s) = whiteKey s \<and>
   blackKey (resetGame eng s) = blackKey s \<and>
   maxTurns (resetGame eng s) = maxTurns s"
  by (simp add: resetGame_def Let_def)

subsection \<open>The request fails, or delivers no move\<close>

text \<open>
  Claim C2. When the request fails, \<open>startGame\<close> ends with loading off, the completion
  flag false and the text \<^verbatim>\<open>Failed to load moves.\<close> as thinking text; no timer is pending, so
  no replay step can fire and the timer chain hands nothing to \<^verbatim>\<open>setPosition\<close>; the engine
  instance and the displayed position are what they were when the request was sent.
\<close>

theorem startGame_rejects:
  "isLoading (ui (startGame eng Rejects s)) = False \<and>
   gameFinished (ui (startGame eng Rejects s)) = False \<and>
   thinking (ui (startGame eng Rejects s)) = ''Failed to load moves.'' \<and>
   pending (startGame eng Rejects s) = NoPending \<and>
   step eng (startGame eng Rejects s) Timeout_fires = None \<and>
   run_timeouts eng (startGame eng Rejects s) = ([], startGame eng Rejects s) \<and>
   game (ui (startGame eng Rejects s)) = game (startGame_init eng s) \<and>
   position (ui (startGame eng Rejects s)) = position (startGame_init eng s)"
  by (simp add: startGame_def startGame_catch_def startGame_init_fields run_timeouts_idle)

text \<open>
  Claim C5. When the request delivers the empty list, \<open>startGame\<close> itself ends in the
  finished state: completion flag true, loading off, thinking text empty. No timer is
  pending, the chain hands nothing to \<^verbatim>\<open>setPosition\<close>, and the engine instance and the
  displayed position are those of the reset that preceded the request.
\<close>

theorem startGame_empty_list:
  "gameFinished (ui (startGame eng (Resolves []) s)) = True \<and>
   isLoading (ui (startGame eng (Resolves []) s)) = False \<and>
   thinking (ui (startGame eng (Resolves []) s)) = [] \<and>
   pending (startGame eng (Resolves []) s) = NoPending \<and>
   step eng (startGame eng (Resolves []) s) Timeout_fires = None \<and>
   run_timeouts eng (startGame eng (Resolves []) s) = ([], startGame eng (Resolves []) s) \<and>
   game (ui (startGame eng (Resolves []) s)) = new_Chess eng \<and>
   position (ui (startGame eng (Resolves []) s)) = fen eng (new_Chess eng)"
  by (simp add: startGame_def startGame_then_def playMoves_def startGame_init_fields
      run_timeouts_idle)

subsection \<open>The max-turns field\<close>

lemma maxTurns_numeric_input:
  "parseInt v = Num n \<Longrightarrow> maxTurns (onChange_maxTurns v s) = Num (max 1 n)"
  by (simp add: onChange_maxTurns_def)

lemma maxTurns_not_below_1: "\<not> number_lt (maxTurns (onChange_maxTurns v s)) (Num 1)"
  by (cases "parseInt v") (simp_all add: onChange_maxTurns_def)

text \<open>
  Claim C6. The handler means to keep the count at 1 or more, and does so for every input
  that starts with an integer (\<open>maxTurns_numeric_input\<close>). For the cleared field, the
  empty string, \<^verbatim>\<open>parseInt\<close> is \<^verbatim>\<open>NaN\<close> and so is \<^verbatim>\<open>Math.max(1, NaN)\<close>: the stored count is
  \<^verbatim>\<open>NaN\<close>, which is not at least 1.
\<close>

theorem maxTurns_cleared_field:
  "maxTurns (onChange_maxTurns [] s) = NaN \<and>
   number_ge (maxTurns (onChange_maxTurns [] s)) (Num 1) = False"
  by (simp add: onChange_maxTurns_def parseInt_def)

subsection \<open>The replay\<close>

lemma fire_timeout_idle: "pending sys = NoPending \<Longrightarrow> fire_timeout eng sys = sys"
  by (simp add: fire_timeout_def)

lemma fire_timeout_throws:
  "pending sys = Timeout moves i \<Longrightarrow> i < length moves \<Longrightarrow>
   move eng (game (ui sys)) (queen_move (moves ! i)) = None \<Longrightarrow>
   fire_timeout eng sys = sys\<lparr>pending := NoPending\<rparr>"
  by (simp add: fire_timeout_def timeout_callback_throws)

lemma fire_timeout_accepts:
  "pending sys = Timeout moves i \<Longrightarrow> i < length moves \<Longrightarrow>
   move eng (game (ui sys)) (queen_move (moves ! i)) = Some g \<Longrightarrow>
   fire_timeout eng sys = playMoves moves (Suc i) ((ui sys)\<lparr>game := g, position := fen eng g\<rparr>)"
  by (simp add: fire_timeout_def timeout_callback_accepts)

lemma replay_inv_start: "replay_inv eng moves 0 0 (startGame eng (Resolves moves) s)"
  by (simp add: replay_inv_def startGame_def startGame_then_def playMoves_pending
      playMoves_ui_fields startGame_init_fields)

lemma replay_inv_fire:
  assumes "replay_inv eng moves k c sys"
  shows "\<exists>c'. replay_inv eng moves (Suc k) c' (fire_timeout eng sys)"
proof -
  from assms have c: "c \<le> length moves" "c \<le> k"
    and g: "engine_after eng (new_Chess eng) (take c moves) = Some (game (ui sys))"
    and p: "position (ui sys) = fen eng (game (ui sys))"
    by (simp_all add: replay_inv_def)
  consider
      (replaying) "pending sys = Timeout moves c" "c = k" "c < length moves" "\<not> gameFinished (ui sys)"
        "isLoading (ui sys)" "gameStarted (ui sys)"
    | (terminal) "pending sys = NoPending"
    using assms by (auto simp: replay_inv_def)
  then show ?thesis
  proof cases
    case terminal
    then have "fire_timeout eng sys = sys"
      by (rule fire_timeout_idle)
    moreover from assms terminal have "replay_inv eng moves (Suc k) c sys"
      by (auto simp: replay_inv_def)
    ultimately show ?thesis by auto
  next
    case replaying
    show ?thesis
    proof (cases "move eng (game (ui sys)) (queen_move (moves ! c))")
      case None
      with replaying have "fire_timeout eng sys = sys\<lparr>pending := NoPending\<rparr>"
        by (intro fire_timeout_throws)
      moreover have "replay_inv eng moves (Suc k) c (sys\<lparr>pending := NoPending\<rparr>)"
        using c g p replaying None by (simp add: replay_inv_def)
      ultimately show ?thesis by auto
    next
      case (Some g')
      let ?s' = "(ui sys)\<lparr>game := g', position := fen eng g'\<rparr>"
      from replaying Some have f: "fire_timeout eng sys = playMoves moves (Suc c) ?s'"
        by (intro fire_timeout_accepts)
      have "engine_after eng (new_Chess eng) (take (Suc c) moves) = Some g'"
        using replaying(3) g Some by (simp add: engine_after_take_Suc)
      then have "replay_inv eng moves (Suc k) (Suc c) (playMoves moves (Suc c) ?s')"
        using replaying by (auto simp: replay_inv_def playMoves_pending playMoves_ui_fields)
      with f show ?thesis by auto
    qed
  qed
qed

text \<open>
  After any number \<open>k\<close> of timers the invariant holds for some cursor: the replay is at
  cursor \<open>k\<close>, or it is finished, or it has halted on a move the engine has thrown on.
\<close>

lemma replay_inv_after_timers:
  "\<exists>c. replay_inv eng moves k c (replay eng moves s k)"
proof (induction k)
  case 0
  show ?case using replay_inv_start [of eng moves s] by auto
next
  case (Suc k)
  then obtain c where "replay_inv eng moves k c (replay eng moves s k)" ..
  from replay_inv_fire [OF this] show ?case by simp
qed

lemma replay_pending_cursor:
  assumes "pending (replay eng moves s k) = Timeout ms i"
  shows "ms = moves \<and> i = k \<and> k < length moves"
proof -
  from replay_inv_after_timers [of eng moves k s]
  obtain c where "replay_inv eng moves k c (replay eng moves s k)" ..
  with assms show ?thesis
    by (auto simp: replay_inv_def)
qed

lemma replay_inv_user_input:
  assumes "user_input e" and "step eng sys e = Some sys'" and "replay_inv eng moves k c sys"
  shows "replay_inv eng moves k c sys'"
proof -
  from assms(1,2) have "pending sys' = pending sys" "game (ui sys') = game (ui sys)"
    "position (ui sys') = position (ui sys)" "gameFinished (ui sys') = gameFinished (ui sys)"
    "isLoading (ui sys') = isLoading (ui sys)" "gameStarted (ui sys') = gameStarted (ui sys)"
    by (cases e; auto simp: onChange_maxTurns_def)+
  with assms(3) show ?thesis
    by (simp add: replay_inv_def)
qed

lemma replay_inv_controls:
  assumes "replay_inv eng moves k c sys" and "pending sys \<noteq> NoPending"
  shows "step eng sys Click_start = None \<and> step eng sys Click_reset = None \<and>
         step eng sys Interval_fires = None"
  using assms by (auto simp: replay_inv_def trivia_running_def)

lemma positions_after_nth:
  "engine_after eng g ms = Some g' \<Longrightarrow> k < length ms \<Longrightarrow>
     \<exists>gk. engine_after eng g (take (Suc k) ms) = Some gk \<and> positions_after eng g ms ! k = fen eng gk"
proof (induction ms arbitrary: g k)
  case Nil
  then show ?case by simp
next
  case (Cons m ms)
  from Cons.prems(1) obtain g1 where g1: "move eng g (queen_move m) = Some g1"
    and rest: "engine_after eng g1 ms = Some g'"
    by (auto split: option.splits)
  show ?case
  proof (cases k)
    case 0
    with g1 show ?thesis by simp
  next
    case (Suc j)
    with Cons.prems(2) have "j < length ms" by simp
    from Cons.IH [OF rest this] g1 Suc show ?thesis by simp
  qed
qed

lemma engine_after_take:
  "engine_after eng g ms = Some g' \<Longrightarrow> \<exists>gk. engine_after eng g (take k ms) = Some gk"
proof (induction ms arbitrary: g k)
  case Nil
  then show ?case by simp
next
  case (Cons m ms)
  then show ?case
    by (cases k) (auto split: option.splits)
qed

lemma engine_never_throws:
  "(\<And>g a. move eng g a \<noteq> None) \<Longrightarrow> \<exists>g'. engine_after eng g ms = Some g'"
proof (induction ms arbitrary: g)
  case Nil
  then show ?case by simp
next
  case (Cons m ms)
  from Cons.prems obtain g1 where "move eng g (queen_move m) = Some g1"
    by (meson option.exhaust)
  with Cons.IH [OF Cons.prems, of g1] show ?case by simp
qed

lemma startGame_resolves_playMoves:
  "startGame eng (Resolves moves) s =
     playMoves moves 0 ((startGame_init eng s)\<lparr>movesHistory := moves, gameStarted := True\<rparr>)"
  by (simp add: startGame_def startGame_then_def)

lemma replay_accepted_prefix:
  assumes "k \<le> length moves" and "engine_after eng (new_Chess eng) (take k moves) = Some gk"
  shows "replay eng moves s k =
     playMoves moves k ((startGame_init eng s)\<lparr>movesHistory := moves, gameStarted := True,
        game := gk, position := fen eng gk\<rparr>)"
  using fire_timeout_funpow [of k moves eng
      "(startGame_init eng s)\<lparr>movesHistory := moves, gameStarted := True\<rparr>" gk] assms
  by (simp add: startGame_resolves_playMoves startGame_init_fields)

lemma run_timeouts_accepted:
  assumes "engine_after eng (new_Chess eng) moves = Some g"
  shows "run_timeouts eng (startGame eng (Resolves moves) s) =
     (positions_after eng (new_Chess eng) moves, replay eng moves s (length moves))"
  using run_timeouts_playMoves [of 0 moves eng
      "(startGame_init eng s)\<lparr>movesHistory := moves, gameStarted := True\<rparr>" g]
    replay_accepted_prefix [of "length moves" moves eng g s] assms
  by (simp add: startGame_resolves_playMoves startGame_init_fields)

text \<open>
  Claim C1, amended. The claim as written fails for a list with a move on which the
  engine throws: the callback dies before \<^verbatim>\<open>setPosition\<close>, nothing is scheduled any more and
  the match is never marked complete (the list \<^verbatim>\<open>["z9z9"]\<close> below). For a move list of
  length \<open>N\<close> that the engine applies without throwing:
  \<^item> the timer chain hands exactly \<open>N\<close> positions to \<^verbatim>\<open>setPosition\<close>, the \<open>k\<close>-th being the
    encoding of the engine after the first \<open>k\<close> moves of the list;
  \<^item> after fewer than \<open>N\<close> timers the completion flag is false, loading is on and the next
    timer is pending;
  \<^item> after the \<open>N\<close>-th timer the completion flag is true, the thinking text is empty,
    loading is off and nothing is pending.
\<close>

theorem replay_accepted_list:
  assumes "engine_after eng (new_Chess eng) moves = Some g"
  shows "fst (run_timeouts eng (startGame eng (Resolves moves) s)) = positions_after eng (new_Chess eng) moves \<and>
         length (positions_after eng (new_Chess eng) moves) = length moves \<and>
         (\<forall>k<length moves. \<exists>gk. engine_after eng (new_Chess eng) (take (Suc k) moves) = Some gk \<and>
              positions_after eng (new_Chess eng) moves ! k = fen eng gk) \<and>
         snd (run_timeouts eng (startGame eng (Resolves moves) s)) = replay eng moves s (length moves) \<and>
         (\<forall>k<length moves. \<not> gameFinished (ui (replay eng moves s k)) \<and>
              isLoading (ui (replay eng moves s k)) \<and>
              pending (replay eng moves s k) = Timeout moves k) \<and>
         gameFinished (ui (replay eng moves s (length moves))) \<and>
         thinking (ui (replay eng moves s (length moves))) = [] \<and>
         \<not> isLoading (ui (replay eng moves s (length moves))) \<and>
         pending (replay eng moves s (length moves)) = NoPending \<and>
         game (ui (replay eng moves s (length moves))) = g \<and>
         position (ui (replay eng moves s (length moves))) = fen eng g"
proof -
  have a: "fst (run_timeouts eng (startGame eng (Resolves moves) s)) = positions_after eng (new_Chess eng) moves"
    and b: "snd (run_timeouts eng (startGame eng (Resolves moves) s)) = replay eng moves s (length moves)"
    using run_timeouts_accepted [OF assms, of s] by simp_all
  have c: "length (positions_after eng (new_Chess eng) moves) = length moves"
    using assms by (rule length_positions_after)
  have d: "\<forall>k<length moves. \<exists>gk. engine_after eng (new_Chess eng) (take (Suc k) moves) = Some gk \<and>
              positions_after eng (new_Chess eng) moves ! k = fen eng gk"
    using positions_after_nth [OF assms] by blast
  have e: "\<not> gameFinished (ui (replay eng moves s k)) \<and> isLoading (ui (replay eng moves s k)) \<and>
      pending (replay eng moves s k) = Timeout moves k" if k: "k < length moves" for k
  proof -
    from engine_after_take [OF assms] obtain gk
      where "engine_after eng (new_Chess eng) (take k moves) = Some gk" by blast
    from replay_accepted_prefix [OF _ this, of s] k show ?thesis
      by (simp add: playMoves_pending playMoves_ui_fields startGame_init_fields)
  qed
  have f: "replay eng moves s (length moves) =
      playMoves moves (length moves) ((startGame_init eng s)\<lparr>movesHistory := moves, gameStarted := True,
        game := g, position := fen eng g\<rparr>)"
    using replay_accepted_prefix [of "length moves" moves eng g s] assms by simp
  have g: "gameFinished (ui (replay eng moves s (length moves))) \<and>
         thinking (ui (replay eng moves s (length moves))) = [] \<and>
         \<not> isLoading (ui (replay eng moves s (length moves))) \<and>
         pending (replay eng moves s (length moves)) = NoPending \<and>
         game (ui (replay eng moves s (length moves))) = g \<and>
         position (ui (replay eng moves s (length moves))) = fen eng g"
    unfolding f by (simp add: playMoves_def)
  from a b c d e g show ?thesis by blast
qed

theorem replay_accepted_list_witness:
  "engine_after recorder (new_Chess recorder) [''e2e4'', ''e7e5''] = Some [queen_move ''e2e4'', queen_move ''e7e5''] \<and>
   fst (run_timeouts recorder (startGame recorder (Resolves [''e2e4'', ''e7e5'']) (App_init recorder)))
     = [''start e2e4q'', ''start e2e4q e7e5q''] \<and>
   \<not> gameFinished (ui (replay recorder [''e2e4'', ''e7e5''] (App_init recorder) 1)) \<and>
   gameFinished (ui (replay recorder [''e2e4'', ''e7e5''] (App_init recorder) 2)) \<and>
   position (ui (replay recorder [''e2e4'', ''e7e5''] (App_init recorder) 2)) = ''start e2e4q e7e5q''"
proof -
  have h: "engine_after recorder (new_Chess recorder) [''e2e4'', ''e7e5'']
      = Some [queen_move ''e2e4'', queen_move ''e7e5'']"
    by code_simp
  have p: "positions_after recorder (new_Chess recorder) [''e2e4'', ''e7e5'']
      = [''start e2e4q'', ''start e2e4q e7e5q'']"
    by code_simp
  have f: "fen recorder [queen_move ''e2e4'', queen_move ''e7e5''] = ''start e2e4q e7e5q''"
    by code_simp
  note t = replay_accepted_list [OF h, of "App_init recorder"]
  from t p have u: "fst (run_timeouts recorder (startGame recorder (Resolves [''e2e4'', ''e7e5''])
      (App_init recorder))) = [''start e2e4q'', ''start e2e4q e7e5q'']"
    by simp
  from t have q: "\<not> gameFinished (ui (replay recorder [''e2e4'', ''e7e5''] (App_init recorder) k))"
    if "k < length [''e2e4'', ''e7e5'']" for k
    using that by blast
  have v: "\<not> gameFinished (ui (replay recorder [''e2e4'', ''e7e5''] (App_init recorder) 1))"
    by (rule q) simp
  from t have "gameFinished (ui (replay recorder [''e2e4'', ''e7e5''] (App_init recorder)
        (length [''e2e4'', ''e7e5''])))"
    and "position (ui (replay recorder [''e2e4'', ''e7e5''] (App_init recorder)
        (length [''e2e4'', ''e7e5'']))) = fen recorder [queen_move ''e2e4'', queen_move ''e7e5'']"
    by blast+
  with f have w: "gameFinished (ui (replay recorder [''e2e4'', ''e7e5''] (App_init recorder) 2))"
    "position (ui (replay recorder [''e2e4'', ''e7e5''] (App_init recorder) 2)) = ''start e2e4q e7e5q''"
    by (simp_all add: numeral_2_eq_2)
  from h u v w show ?thesis
    by blast
qed

text \<open>
  The list \<^verbatim>\<open>["z9z9"]\<close> has length 1; the engine \<open>recorder\<close> throws on its only move. The
  chain ends with no position update at all and with the completion flag false.
\<close>

theorem replay_refused_move_counterexample:
  "length (fst (run_timeouts recorder (startGame recorder (Resolves [''z9z9'']) (App_init recorder))))
     \<noteq> length [''z9z9''] \<and>
   pending (snd (run_timeouts recorder (startGame recorder (Resolves [''z9z9'']) (App_init recorder))))
     = NoPending \<and>
   \<not> gameFinished (ui (snd (run_timeouts recorder (startGame recorder (Resolves [''z9z9''])
     (App_init recorder)))))"
  by code_simp

subsection \<open>The cursor\<close>




subsection \<open>A replay of three moves and its log\<close>

lemma log_entries:
  "log_entry 0 ''e2e4'' = ''1. White: e2-e4''"
  "log_entry (Suc 0) ''e7e5'' = ''2. Black: e7-e5''"
  "log_entry (Suc (Suc 0)) ''g1f3'' = ''3. White: g1-f3''"
  by code_simp+

lemma moves_log_entry:
  assumes "gameFinished s" and "i < length (movesHistory s)"
  shows "length (moves_log s) = length (movesHistory s) \<and>
         moves_log s ! i =
           String_of_nat (i + 1) @ ''. '' @ (if even i then ''White'' else ''Black'') @ '': '' @
           take 2 (movesHistory s ! i) @ ''-'' @ take 2 (drop 2 (movesHistory s ! i))"
  using assms
  by (auto simp: moves_log_def log_entry_def formatMove_def slice_def nth_enumerate_eq
      even_iff_mod_2_eq_zero)

lemma enumerate_three: "enumerate 0 [a, b, c] = [(0, a), (Suc 0, b), (Suc (Suc 0), c)]"
  by (simp add: enumerate_eq_zip upt_rec)

text \<open>
  Claim C8. The request delivers \<^verbatim>\<open>["e2e4","e7e5","g1f3"]\<close> and the replay runs to its end,
  the engine applying the three moves. Then the positions displayed on the way are the
  encodings after the first, the second and the third move, the engine instance and the
  displayed position at the end are those after the third move, and the move log shows
  the three entries \<^verbatim>\<open>1. White: e2-e4\<close>, \<^verbatim>\<open>2. Black: e7-e5\<close>, \<^verbatim>\<open>3. White: g1-f3\<close>.
\<close>

theorem replay_e2e4_e7e5_g1f3:
  assumes "move eng (new_Chess eng) \<lparr>sq_from = ''e2'', sq_to = ''e4'', promotion = ''q''\<rparr> = Some g1"
    and "move eng g1 \<lparr>sq_from = ''e7'', sq_to = ''e5'', promotion = ''q''\<rparr> = Some g2"
    and "move eng g2 \<lparr>sq_from = ''g1'', sq_to = ''f3'', promotion = ''q''\<rparr> = Some g3"
  shows "fst (run_timeouts eng (startGame eng (Resolves [''e2e4'', ''e7e5'', ''g1f3'']) s))
           = [fen eng g1, fen eng g2, fen eng g3] \<and>
         game (ui (snd (run_timeouts eng (startGame eng (Resolves [''e2e4'', ''e7e5'', ''g1f3'']) s)))) = g3 \<and>
         position (ui (snd (run_timeouts eng (startGame eng (Resolves [''e2e4'', ''e7e5'', ''g1f3'']) s))))
           = fen eng g3 \<and>
         gameFinished (ui (snd (run_timeouts eng (startGame eng (Resolves [''e2e4'', ''e7e5'', ''g1f3'']) s)))) \<and>
         moves_log (ui (snd (run_timeouts eng (startGame eng (Resolves [''e2e4'', ''e7e5'', ''g1f3'']) s))))
           = [''1. White: e2-e4'', ''2. Black: e7-e5'', ''3. White: g1-f3'']"
proof -
  let ?moves = "[''e2e4'', ''e7e5'', ''g1f3'']"
  let ?fin = "snd (run_timeouts eng (startGame eng (Resolves ?moves) s))"
  have q: "queen_move ''e2e4'' = \<lparr>sq_from = ''e2'', sq_to = ''e4'', promotion = ''q''\<rparr>"
    "queen_move ''e7e5'' = \<lparr>sq_from = ''e7'', sq_to = ''e5'', promotion = ''q''\<rparr>"
    "queen_move ''g1f3'' = \<lparr>sq_from = ''g1'', sq_to = ''f3'', promotion = ''q''\<rparr>"
    by (simp_all add: queen_move_def)
  have e: "engine_after eng (new_Chess eng) ?moves = Some g3"
    using assms by (simp add: q)
  have p: "positions_after eng (new_Chess eng) ?moves = [fen eng g1, fen eng g2, fen eng g3]"
    using assms by (simp add: q)
  have r: "run_timeouts eng (startGame eng (Resolves ?moves) s) =
      (positions_after eng (new_Chess eng) ?moves,
       playMoves ?moves (length ?moves) ((startGame_init eng s)\<lparr>movesHistory := ?moves,
         gameStarted := True, game := g3, position := fen eng g3\<rparr>))"
    using run_timeouts_accepted [OF e, of s] replay_accepted_prefix [of "length ?moves" ?moves eng g3 s] e
    by simp
  have fin: "game (ui ?fin) = g3" "position (ui ?fin) = fen eng g3" "gameFinished (ui ?fin)"
    "movesHistory (ui ?fin) = ?moves"
    unfolding r by (simp_all add: playMoves_ui_fields)
  then have "moves_log (ui ?fin) = [''1. White: e2-e4'', ''2. Black: e7-e5'', ''3. White: g1-f3'']"
    by (simp add: moves_log_def enumerate_three log_entries)
  with fin r p show ?thesis by simp
qed

theorem replay_e2e4_e7e5_g1f3_witness:
  "fst (run_timeouts recorder (startGame recorder (Resolves [''e2e4'', ''e7e5'', ''g1f3'']) (App_init recorder)))
     = [''start e2e4q'', ''start e2e4q e7e5q'', ''start e2e4q e7e5q g1f3q''] \<and>
   position (ui (snd (run_timeouts recorder (startGame recorder (Resolves [''e2e4'', ''e7e5'', ''g1f3''])
     (App_init recorder))))) = ''start e2e4q e7e5q g1f3q'' \<and>
   moves_log (ui (snd (run_timeouts recorder (startGame recorder (Resolves [''e2e4'', ''e7e5'', ''g1f3''])
     (App_init recorder))))) = [''1. White: e2-e4'', ''2. Black: e7-e5'', ''3. White: g1-f3'']"
proof -
  let ?a = "\<lparr>sq_from = ''e2'', sq_to = ''e4'', promotion = ''q''\<rparr>"
  let ?b = "\<lparr>sq_from = ''e7'', sq_to = ''e5'', promotion = ''q''\<rparr>"
  let ?c = "\<lparr>sq_from = ''g1'', sq_to = ''f3'', promotion = ''q''\<rparr>"
  have m1: "move recorder (new_Chess recorder) ?a = Some [?a]"
    by code_simp
  have m2: "move recorder [?a] ?b = Some [?a, ?b]"
    by code_simp
  have m3: "move recorder [?a, ?b] ?c = Some [?a, ?b, ?c]"
    by code_simp
  have f: "fen recorder [?a] = ''start e2e4q''" "fen recorder [?a, ?b] = ''start e2e4q e7e5q''"
    "fen recorder [?a, ?b, ?c] = ''start e2e4q e7e5q g1f3q''"
    by code_simp+
  from replay_e2e4_e7e5_g1f3 [OF m1 m2 m3, of "App_init recorder"] f show ?thesis
    by simp
qed

subsection \<open>The promotion choice\<close>

lemma queen_only_fields:
  "new_Chess (queen_only eng) = new_Chess eng"
  "fen (queen_only eng) = fen eng"
  "move (queen_only eng) g a = move eng g (a\<lparr>promotion := ''q''\<rparr>)"
  by (simp_all add: queen_only_def)

lemma timeout_callback_queen_only:
  "timeout_callback (queen_only eng) moves i s = timeout_callback eng moves i s"
  by (simp add: timeout_callback_def queen_only_fields Let_def split: option.splits)

lemma fire_timeout_queen_only: "fire_timeout (queen_only eng) sys = fire_timeout eng sys"
  by (simp add: fire_timeout_def timeout_callback_queen_only split: continuation.splits sum.splits)

lemma step_queen_only: "step (queen_only eng) sys e = step eng sys e"
  by (cases e)
    (simp_all add: fire_timeout_queen_only startGame_init_def resetGame_def reset_def queen_only_fields
      split: continuation.splits)

lemma run_queen_only: "run (queen_only eng) sys es = run eng sys es"
  by (induction es arbitrary: sys) (simp_all add: step_queen_only split: option.splits)

lemma run_timeouts_queen_only: "run_timeouts (queen_only eng) sys = run_timeouts eng sys"
proof (induction eng sys rule: run_timeouts.induct)
  case (1 eng sys)
  show ?case
  proof (cases "pending sys")
    case (Timeout moves i)
    show ?thesis
    proof (cases "timeout_callback eng moves i (ui sys)")
      case (Inl e)
      with Timeout show ?thesis
        by (simp add: run_timeouts.simps [of _ sys] timeout_callback_queen_only)
    next
      case (Inr sys')
      with Timeout "1.IH" [OF Timeout Inr] show ?thesis
        by (simp add: run_timeouts.simps [of _ sys] timeout_callback_queen_only)
    qed
  qed (simp_all add: run_timeouts.simps [of _ sys])
qed

lemma queen_move_take_4: "queen_move (take 4 m) = queen_move m"
  by (simp add: queen_move_def drop_take)

lemma timeout_callback_take_4:
  "map_sum id (\<lambda>sys. (game (ui sys), position (ui sys))) (timeout_callback eng (map (take 4) moves) i s)
     = map_sum id (\<lambda>sys. (game (ui sys), position (ui sys))) (timeout_callback eng moves i s)"
  by (simp add: timeout_callback_def callback_request queen_move_take_4 playMoves_ui_fields
      split: option.splits)

lemma timeout_callback_request:
  assumes "i < length moves"
  shows "timeout_callback eng moves i s =
     (case move eng (game s)
             \<lparr>sq_from = take 2 (moves ! i), sq_to = take 2 (drop 2 (moves ! i)), promotion = ''q''\<rparr> of
        None \<Rightarrow> Inl InvalidMove
      | Some g \<Rightarrow> Inr (playMoves moves (Suc i) (s\<lparr>game := g, position := fen eng g\<rparr>)))"
  using assms by (simp add: timeout_callback_def slice_def Let_def split: option.splits)

lemma fire_timeout_request:
  assumes "pending sys = Timeout moves i" and "i < length moves"
  shows "fire_timeout eng sys =
     (case move eng (game (ui sys))
             \<lparr>sq_from = take 2 (moves ! i), sq_to = take 2 (drop 2 (moves ! i)), promotion = ''q''\<rparr> of
        None \<Rightarrow> sys\<lparr>pending := NoPending\<rparr>
      | Some g \<Rightarrow> playMoves moves (Suc i) ((ui sys)\<lparr>game := g, position := fen eng g\<rparr>))"
  using assms by (simp add: fire_timeout_def timeout_callback_request split: option.splits)

text \<open>
  Claim C9. Every move the replay applies is handed to the engine with the queen as
  promotion choice:
  \<^item> the timer callback for the move of index \<open>i\<close> calls \<open>move\<close> on the current engine
    instance with the first two characters of the move code as origin, the next two as
    destination and \<^verbatim>\<open>q\<close> as promotion, and it is the result of that call that becomes the
    engine instance and, encoded, the displayed position; when the call throws, the
    callback throws;
  \<^item> in the replay of any move list, whenever a timer is pending after \<open>k\<close> steps, it is the
    timer of the move of index \<open>k\<close>, it can fire, and the page after it is the outcome of
    that call with promotion \<^verbatim>\<open>q\<close> for that move;
  \<^item> no other promotion choice reaches the engine: every run of the page, and the timer
    chain run to its end, are the same with \<open>eng\<close> and with \<open>queen_only eng\<close>, which
    overwrites the promotion choice of every move it is given with the queen;
  \<^item> the intent written in the move code is not read: a promotion letter behind the
    first four characters (\<^verbatim>\<open>a7a8n\<close>) changes neither the engine instance nor the displayed
    position.
\<close>

theorem promotion_always_queen:
  "(i < length moves \<longrightarrow>
      timeout_callback eng moves i s =
        (case move eng (game s)
                \<lparr>sq_from = take 2 (moves ! i), sq_to = take 2 (drop 2 (moves ! i)), promotion = ''q''\<rparr> of
           None \<Rightarrow> Inl InvalidMove
         | Some g \<Rightarrow> Inr (playMoves moves (Suc i) (s\<lparr>game := g, position := fen eng g\<rparr>)))) \<and>
   (pending (replay eng moves s k) = Timeout ms j \<longrightarrow>
      ms = moves \<and> j = k \<and> k < length moves \<and>
      step eng (replay eng moves s k) Timeout_fires = Some (replay eng moves s (Suc k)) \<and>
      replay eng moves s (Suc k) =
        (case move eng (game (ui (replay eng moves s k)))
                \<lparr>sq_from = take 2 (moves ! k), sq_to = take 2 (drop 2 (moves ! k)), promotion = ''q''\<rparr> of
           None \<Rightarrow> (replay eng moves s k)\<lparr>pending := NoPending\<rparr>
         | Some g \<Rightarrow> playMoves moves (Suc k)
             ((ui (replay eng moves s k))\<lparr>game := g, position := fen eng g\<rparr>))) \<and>
   run (queen_only eng) sys es = run eng sys es \<and>
   run_timeouts (queen_only eng) sys = run_timeouts eng sys \<and>
   map_sum id (\<lambda>sys. (game (ui sys), position (ui sys))) (timeout_callback eng moves i s)
     = map_sum id (\<lambda>sys. (game (ui sys), position (ui sys)))
         (timeout_callback eng (map (take 4) moves) i s)"
proof -
  have a: "i < length moves \<longrightarrow>
      timeout_callback eng moves i s =
        (case move eng (game s)
                \<lparr>sq_from = take 2 (moves ! i), sq_to = take 2 (drop 2 (moves ! i)), promotion = ''q''\<rparr> of
           None \<Rightarrow> Inl InvalidMove
         | Some g \<Rightarrow> Inr (playMoves moves (Suc i) (s\<lparr>game := g, position := fen eng g\<rparr>)))"
    by (simp add: timeout_callback_request)
  have b: "ms = moves \<and> j = k \<and> k < length moves \<and>
      step eng (replay eng moves s k) Timeout_fires = Some (replay eng moves s (Suc k)) \<and>
      replay eng moves s (Suc k) =
        (case move eng (game (ui (replay eng moves s k)))
                \<lparr>sq_from = take 2 (moves ! k), sq_to = take 2 (drop 2 (moves ! k)), promotion = ''q''\<rparr> of
           None \<Rightarrow> (replay eng moves s k)\<lparr>pending := NoPending\<rparr>
         | Some g \<Rightarrow> playMoves moves (Suc k)
             ((ui (replay eng moves s k))\<lparr>game := g, position := fen eng g\<rparr>))"
    if p: "pending (replay eng moves s k) = Timeout ms j"
  proof -
    from replay_pending_cursor [OF p] have c: "ms = moves" "j = k" "k < length moves"
      by simp_all
    with p have p': "pending (replay eng moves s k) = Timeout moves k"
      by simp
    from fire_timeout_request [OF p' c(3), of eng] p' c show ?thesis
      by simp
  qed
  from a b run_queen_only [of eng sys es] run_timeouts_queen_only [of eng sys]
    timeout_callback_take_4 [of eng moves i s]
  show ?thesis by simp
qed

theorem promotion_always_queen_witness:
  "pending (replay recorder [''a7a8n''] (App_init recorder) 0) = Timeout [''a7a8n''] 0 \<and>
   move recorder (game (ui (replay recorder [''a7a8n''] (App_init recorder) 0)))
     \<lparr>sq_from = ''a7'', sq_to = ''a8'', promotion = ''q''\<rparr>
     = Some [\<lparr>sq_from = ''a7'', sq_to = ''a8'', promotion = ''q''\<rparr>] \<and>
   game (ui (replay recorder [''a7a8n''] (App_init recorder) 1))
     = [\<lparr>sq_from = ''a7'', sq_to = ''a8'', promotion = ''q''\<rparr>] \<and>
   position (ui (replay recorder [''a7a8n''] (App_init recorder) 1)) = ''start a7a8q''"
proof -
  let ?q = "\<lparr>sq_from = ''a7'', sq_to = ''a8'', promotion = ''q''\<rparr>"
  let ?sys = "replay recorder [''a7a8n''] (App_init recorder)"
  have p: "pending (?sys 0) = Timeout [''a7a8n''] 0"
    by code_simp
  have m: "move recorder (game (ui (?sys 0))) ?q = Some [?q]"
    by code_simp
  have f: "fen recorder [?q] = ''start a7a8q''"
    by code_simp
  from promotion_always_queen [of 0 "[''a7a8n'']" recorder "App_init recorder" 0 "[''a7a8n'']" 0] p
  have "?sys (Suc 0) =
      (case move recorder (game (ui (?sys 0)))
              \<lparr>sq_from = take 2 ([''a7a8n''] ! 0), sq_to = take 2 (drop 2 ([''a7a8n''] ! 0)), promotion = ''q''\<rparr> of
         None \<Rightarrow> (?sys 0)\<lparr>pending := NoPending\<rparr>
       | Some g \<Rightarrow> playMoves [''a7a8n''] (Suc 0) ((ui (?sys 0))\<lparr>game := g, position := fen recorder g\<rparr>))"
    by blast
  moreover have "\<lparr>sq_from = take 2 ([''a7a8n''] ! 0), sq_to = take 2 (drop 2 ([''a7a8n''] ! 0)),
      promotion = ''q''\<rparr> = ?q"
    by simp
  ultimately have "?sys (Suc 0) = playMoves [''a7a8n''] (Suc 0) ((ui (?sys 0))\<lparr>game := [?q], position := fen recorder [?q]\<rparr>)"
    using m by simp
  then have "game (ui (?sys (Suc 0))) = [?q]" "position (ui (?sys (Suc 0))) = ''start a7a8q''"
    using f by (simp_all add: playMoves_ui_fields)
  with p m show ?thesis by simp
qed

lemma promotion_letter_discarded:
  "game (ui (snd (run_timeouts recorder (startGame recorder (Resolves [''a7a8n'']) (App_init recorder)))))
     = [\<lparr>sq_from = ''a7'', sq_to = ''a8'', promotion = ''q''\<rparr>]"
  by code_simp

subsection \<open>The trivia rotator\<close>

lemma fire_timeout_currentTrivia:
  "currentTrivia (ui (fire_timeout eng sys)) = currentTrivia (ui sys)"
  by (simp add: fire_timeout_def timeout_callback_def playMoves_def Let_def
      split: continuation.splits sum.splits option.splits if_splits)

lemma step_currentTrivia:
  assumes "step eng sys e = Some sys'"
  shows "currentTrivia (ui sys') =
     (if e = Interval_fires then (currentTrivia (ui sys) + 1) mod length chessTrivia
      else currentTrivia (ui sys))"
  using assms
  by (cases e)
    (auto simp: fire_timeout_currentTrivia startGame_init_def resetGame_def Let_def
      startGame_then_def startGame_catch_def playMoves_def onChange_maxTurns_def trivia_tick_def
      split: if_splits continuation.splits)

lemma run_currentTrivia:
  "run eng sys es = Some sys' \<Longrightarrow> currentTrivia (ui sys) < length chessTrivia \<Longrightarrow>
     currentTrivia (ui sys') < length chessTrivia"
proof (induction es arbitrary: sys)
  case Nil
  then show ?case by simp
next
  case (Cons e es)
  from Cons.prems(1) obtain sys1 where s1: "step eng sys e = Some sys1" and r: "run eng sys1 es = Some sys'"
    by (auto split: option.splits)
  from step_currentTrivia [OF s1] Cons.prems(2) have "currentTrivia (ui sys1) < length chessTrivia"
    by (simp add: length_chessTrivia)
  with r show ?case by (rule Cons.IH)
qed

text \<open>
  Claim C7. In every state the page can reach from its initial state, whatever the events:
  \<^item> the trivia index is below the length of the trivia list;
  \<^item> the interval fires only while loading before the replay has started, and then
    moves the index forward by one modulo the length of the list;
  \<^item> once the replay has started, or while the page is not loading, no event changes
    the index.
\<close>

theorem trivia_rotator:
  assumes "run eng (system_init eng) es = Some sys"
  shows "currentTrivia (ui sys) < length chessTrivia \<and>
         step eng sys Interval_fires =
           (if isLoading (ui sys) \<and> \<not> gameStarted (ui sys)
            then Some (sys\<lparr>ui := (ui sys)\<lparr>currentTrivia :=
                   (currentTrivia (ui sys) + 1) mod length chessTrivia\<rparr>\<rparr>)
            else None) \<and>
         (gameStarted (ui sys) \<or> \<not> isLoading (ui sys) \<longrightarrow>
            (\<forall>e sys'. step eng sys e = Some sys' \<longrightarrow> currentTrivia (ui sys') = currentTrivia (ui sys)))"
proof -
  have "currentTrivia (ui (system_init eng)) < length chessTrivia"
    by (simp add: system_init_def App_init_def length_chessTrivia)
  with assms have a: "currentTrivia (ui sys) < length chessTrivia"
    by (rule run_currentTrivia)
  have b: "step eng sys Interval_fires =
           (if isLoading (ui sys) \<and> \<not> gameStarted (ui sys)
            then Some (sys\<lparr>ui := (ui sys)\<lparr>currentTrivia :=
                   (currentTrivia (ui sys) + 1) mod length chessTrivia\<rparr>\<rparr>)
            else None)"
    by (simp add: trivia_running_def trivia_tick_def)
  have c: "currentTrivia (ui sys') = currentTrivia (ui sys)"
    if "gameStarted (ui sys) \<or> \<not> isLoading (ui sys)" and "step eng sys e = Some sys'" for e sys'
  proof -
    from that have "e \<noteq> Interval_fires"
      by (auto simp: trivia_running_def)
    with step_currentTrivia [OF that(2)] show ?thesis by simp
  qed
  from a b c show ?thesis by blast
qed

theorem trivia_rotator_witness:
  "run recorder (system_init recorder) [Click_start, Interval_fires, Interval_fires, Fetch_resolves [''e2e4'']] \<noteq> None \<and>
   gameStarted (ui (the (run recorder (system_init recorder)
      [Click_start, Interval_fires, Interval_fires, Fetch_resolves [''e2e4'']]))) \<and>
   currentTrivia (ui (the (run recorder (system_init recorder)
      [Click_start, Interval_fires, Interval_fires, Fetch_resolves [''e2e4'']]))) = 2 \<and>
   step recorder (the (run recorder (system_init recorder)
      [Click_start, Interval_fires, Interval_fires, Fetch_resolves [''e2e4'']])) Interval_fires = None \<and>
   currentTrivia (ui (fire_timeout recorder (the (run recorder (system_init recorder)
      [Click_start, Interval_fires, Interval_fires, Fetch_resolves [''e2e4'']])))) = 2"
proof -
  let ?es = "[Click_start, Interval_fires, Interval_fires, Fetch_resolves [''e2e4'']]"
  let ?sys = "the (run recorder (system_init recorder) ?es)"
  have r: "run recorder (system_init recorder) ?es \<noteq> None"
    by code_simp
  then have h: "run recorder (system_init recorder) ?es = Some ?sys"
    by simp
  have g: "gameStarted (ui ?sys)" and l: "isLoading (ui ?sys)" and n: "currentTrivia (ui ?sys) = 2"
    and f: "step recorder ?sys Timeout_fires = Some (fire_timeout recorder ?sys)"
    by code_simp+
  note t = trivia_rotator [OF h]
  from t g l have i: "step recorder ?sys Interval_fires = None"
    by simp
  from t g have "\<forall>e sys'. step recorder ?sys e = Some sys' \<longrightarrow> currentTrivia (ui sys') = currentTrivia (ui ?sys)"
    by blast
  with f n have "currentTrivia (ui (fire_timeout recorder ?sys)) = 2"
    by metis
  with r g n i show ?thesis by blast
qed

end
